theory Spec2Isabelle
  imports
    Main
    "HOL-Library.Char_ord"
    "HOL-Library.List_Lexorder"
    "HOL-Library.Product_Lexorder"
    "HOL-Library.Sublist"
begin

section \<open>git-bump: version resolution and tag publication (main.go)\<close>

text \<open>
  The program is one Go file. It lists the tags of a repository, parses them as semantic
  versions, takes the greatest as the current version, asks which component to bump
  (by flag or by an interactive menu), creates an annotated tag and pushes it.

  The embedding follows \<^verbatim>\<open>main.go\<close> function by function. Everything the file
  calls but does not define (the semver package, go-git, promptui, gitconfig, go-flags,
  the Go runtime) appears either as a field of the environment record \<open>Env\<close>, whose
  value is the answer the collaborator gives, or as a definition whose comment says what
  it stands for.
\<close>

subsection \<open>Results: Go errors and runtime panics\<close>

text \<open>
  A Go function of this file ends in one of three ways: it returns normally, it returns
  a non-nil \<^verbatim>\<open>error\<close> (kept here by its message), or the goroutine panics. The two
  panics that the file can raise are a nil pointer dereference and an index out of range.
\<close>

datatype panic = NilPointerDereference | IndexOutOfRange

datatype failure = Error string | Panic panic

subsection \<open>Output streams and the terminal\<close>

text \<open>
  \<^verbatim>\<open>CLI.Stdout\<close> and \<^verbatim>\<open>CLI.Stderr\<close> are \<^verbatim>\<open>io.Writer\<close>s: the process's standard
  output, its standard error, or \<^verbatim>\<open>ioutil.Discard\<close>. The record \<open>Process\<close> holds
  what the process has really written (one list entry per write call, in order) and the
  menus it has shown on the terminal (label and items of each \<^verbatim>\<open>promptui.Select\<close>).
\<close>

datatype Writer = os_Stdout | os_Stderr | ioutil_Discard

datatype Spec = Major | Minor | Patch

record Process =
  stdout :: "string list"
  stderr :: "string list"
  prompts :: "(string \<times> Spec list) list"

fun Fprint :: "Writer \<Rightarrow> string \<Rightarrow> Process \<Rightarrow> Process" where
  "Fprint os_Stdout s p = p\<lparr>stdout := stdout p @ [s]\<rparr>"
| "Fprint os_Stderr s p = p\<lparr>stderr := stderr p @ [s]\<rparr>"
| "Fprint ioutil_Discard s p = p"

text \<open>
  \<^verbatim>\<open>%q\<close> of a string: the text in double quotes, with a backslash before a double
  quote or a backslash (the tag texts of this program are printable ASCII, for which Go
  escapes nothing else).
\<close>

definition quote :: "string \<Rightarrow> string" where
  "quote s =
     [CHR 0x22] @
     concat (map (\<lambda>c. if c = CHR 0x22 \<or> c = CHR 0x5C then [CHR 0x5C, c] else [c]) s) @
     [CHR 0x22]"

subsection \<open>The semver package\<close>

text \<open>
  Modelled from the spec: the type \<^verbatim>\<open>semver.Version\<close> of the package
  github.com/Masterminds/semver/v3, which is not part of this repository. A version is
  what the spec's data model says (section 3): the triple, the pre-release and build
  metadata strings (empty when absent) and the original text. A \<^verbatim>\<open>*semver.Version\<close>
  that may be nil is a \<open>Version option\<close>.
\<close>

record Version =
  major :: nat
  minor :: nat
  patch :: nat
  pre :: string
  metadata :: string
  original :: string

text \<open>\<^verbatim>\<open>strconv\<close>-style decimal text of a number, as \<^verbatim>\<open>%d\<close> prints it.\<close>

definition digit :: "nat \<Rightarrow> char" where
  "digit d = ''0123456789'' ! d"

fun decimal :: "nat \<Rightarrow> string" where
  "decimal n = (if n < 10 then [digit n] else decimal (n div 10) @ [digit (n mod 10)])"

declare decimal.simps [simp del]

text \<open>
  Modelled from the spec: \<^verbatim>\<open>Version.String\<close>, the canonical string of a version
  (sections 4.4 and 8): major.minor.patch, then \<open>-\<close> and the pre-release when there is
  one, then \<open>+\<close> and the build metadata when there is some; never the prefix of the
  original text.
\<close>

definition String :: "Version \<Rightarrow> string" where
  "String v =
     decimal (major v) @ ''.'' @ decimal (minor v) @ ''.'' @ decimal (patch v) @
     (if pre v \<noteq> [] then ''-'' @ pre v else []) @
     (if metadata v \<noteq> [] then ''+'' @ metadata v else [])"

text \<open>\<^verbatim>\<open>Version.Original\<close>: the text the version was parsed from.\<close>

definition Original :: "Version \<Rightarrow> string" where
  "Original v = original v"

text \<open>
  Modelled from the spec: the total order of versions (section 3): compare major, then
  minor, then patch, then the pre-release by the precedence rules of semantic versioning;
  a version without pre-release is greater than one with, and build metadata is ignored.
  Pre-release precedence compares the dot-separated identifiers from the left: two
  numeric identifiers by value, a numeric one below an alphanumeric one, two
  alphanumeric ones as ASCII text, and a list below each of its proper extensions.
  \<open>Compare\<close> returns -1, 0 or 1 as the package's \<^verbatim>\<open>Compare\<close> does.
\<close>

definition cmp :: "'a::linorder \<Rightarrow> 'a \<Rightarrow> int" where
  "cmp a b = (if a < b then - 1 else if a = b then 0 else 1)"

fun splitDots :: "string \<Rightarrow> string list" where
  "splitDots [] = [[]]"
| "splitDots (c # cs) =
     (if c = CHR ''.'' then [] # splitDots cs
      else (case splitDots cs of [] \<Rightarrow> [[c]] | x # xs \<Rightarrow> (c # x) # xs))"

definition isNumeric :: "string \<Rightarrow> bool" where
  "isNumeric s = (s \<noteq> [] \<and> list_all (\<lambda>c. c \<in> set ''0123456789'') s)"

definition digitValue :: "char \<Rightarrow> nat" where
  "digitValue c = of_char c - 48"

definition numericValue :: "string \<Rightarrow> nat" where
  "numericValue s = foldl (\<lambda>n c. 10 * n + digitValue c) 0 s"

definition identKey :: "string \<Rightarrow> nat \<times> nat \<times> string" where
  "identKey s = (if isNumeric s then (0, numericValue s, []) else (1, 0, s))"

definition comparePrerelease :: "string \<Rightarrow> string \<Rightarrow> int" where
  "comparePrerelease a b =
     cmp (map identKey (splitDots a)) (map identKey (splitDots b))"

definition Compare :: "Version \<Rightarrow> Version \<Rightarrow> int" where
  "Compare v o' =
     (if major v \<noteq> major o' then cmp (major v) (major o')
      else if minor v \<noteq> minor o' then cmp (minor v) (minor o')
      else if patch v \<noteq> patch o' then cmp (patch v) (patch o')
      else if pre v = [] \<and> pre o' = [] then 0
      else if pre v = [] then 1
      else if pre o' = [] then - 1
      else comparePrerelease (pre v) (pre o'))"

definition LessThan :: "Version \<Rightarrow> Version \<Rightarrow> bool" where
  "LessThan v o' = (Compare v o' < 0)"

text \<open>
  Modelled from the spec: \<^verbatim>\<open>IncMajor\<close>, \<^verbatim>\<open>IncMinor\<close> and \<^verbatim>\<open>IncPatch\<close> of the
  semver package (section 4.2): one component grows by one, the components below it
  become zero, pre-release and build metadata are dropped. The spec does not say what
  the original text of the result is; the model gives it the canonical string behind
  the \<open>v\<close> of the old original text, if it had one. \<^verbatim>\<open>main.go\<close> never reads it.
\<close>

definition originalVPrefix :: "Version \<Rightarrow> string" where
  "originalVPrefix v = (if prefix ''v'' (original v) then ''v'' else [])"

definition released :: "Version \<Rightarrow> Version" where
  "released v = v\<lparr>original := originalVPrefix v @ String v\<rparr>"

definition IncMajor :: "Version \<Rightarrow> Version" where
  "IncMajor v =
     released (v\<lparr>major := major v + 1, minor := 0, patch := 0, pre := [], metadata := []\<rparr>)"

definition IncMinor :: "Version \<Rightarrow> Version" where
  "IncMinor v =
     released (v\<lparr>minor := minor v + 1, patch := 0, pre := [], metadata := []\<rparr>)"

definition IncPatch :: "Version \<Rightarrow> Version" where
  "IncPatch v =
     released (v\<lparr>patch := patch v + 1, pre := [], metadata := []\<rparr>)"

text \<open>
  \<^verbatim>\<open>sort.Sort(semver.Collection(vs))\<close>. \<^verbatim>\<open>Collection.Less(i, j)\<close> is
  \<^verbatim>\<open>c[i].LessThan(c[j])\<close>, which reads the fields of both versions: on a nil entry it
  panics with a nil pointer dereference. \<^verbatim>\<open>sort.Sort\<close> makes no call of
  \<^verbatim>\<open>Less\<close> on fewer than two elements, and on two or more it compares every element
  with another one at least once. Go's sort is not stable and its algorithm depends on
  the release of Go; the model sorts by insertion from the left (Go's own choice for
  short slices), and the theorems below use only that the result is an ascending
  rearrangement of the input.
\<close>

fun insertSorted :: "Version \<Rightarrow> Version list \<Rightarrow> Version list" where
  "insertSorted v [] = [v]"
| "insertSorted v (w # ws) =
     (if LessThan v w then v # w # ws else w # insertSorted v ws)"

definition insertionSort :: "Version list \<Rightarrow> Version list" where
  "insertionSort vs = foldl (\<lambda>sorted v. insertSorted v sorted) [] vs"

definition sort_Sort :: "Version option list \<Rightarrow> panic + Version option list" where
  "sort_Sort vs =
     (if length vs < 2 then Inr vs
      else (case those vs of
              None \<Rightarrow> Inl NilPointerDereference
            | Some ws \<Rightarrow> Inr (map Some (insertionSort ws))))"

subsection \<open>The repository (go-git), the identity and the command line\<close>

text \<open>
  Modelled from the spec: the repository collaborator of section 6 (package go-git, not
  part of this repository). A \<open>Repository\<close> holds what the program can observe or
  change: the names of the stored references, the annotated tags created, the pushes
  requested and those that reached the remote; and the answers the collaborator gives
  to each request of this run (an error message, or success).
\<close>

record Commit =
  commitMessage :: string
  committerWhen :: int

record Signature =
  Name :: string
  Email :: string
  When :: int

record CreateTagOptions =
  Tagger :: Signature
  Message :: string

record TagObject =
  tagName :: string
  tagTarget :: string
  tagOptions :: CreateTagOptions

record BasicAuth =
  Username :: string
  Password :: string

record PushOptions =
  Auth :: BasicAuth
  RemoteName :: string
  RefSpecs :: "string list"
  Progress :: Writer

record Repository =
  references :: "string list"
  tagObjects :: "TagObject list"
  pushRequests :: "PushOptions list"
  pushed :: "PushOptions list"
  TagsError :: "string option"
  ForEachError :: "string option"
  HeadResult :: "string + string"
  CommitObjectResult :: "string + Commit"
  CreateTagError :: "string option"
  PushError :: "string option"
  PushProgress :: "string list"

text \<open>\<^verbatim>\<open>ReferenceName.IsTag\<close> and \<^verbatim>\<open>ReferenceName.Short\<close> (called on tag names only).\<close>

definition IsTag :: "string \<Rightarrow> bool" where
  "IsTag name = prefix ''refs/tags/'' name"

definition Short :: "string \<Rightarrow> string" where
  "Short name = (if IsTag name then drop (length ''refs/tags/'') name else name)"

text \<open>\<^verbatim>\<open>Repository.Tags\<close>: an iterator over the tag references, or an error.\<close>

definition Tags :: "Repository \<Rightarrow> string + string list" where
  "Tags r = (case TagsError r of Some e \<Rightarrow> Inl e | None \<Rightarrow> Inr (filter IsTag (references r)))"

definition Head :: "Repository \<Rightarrow> string + string" where
  "Head r = HeadResult r"

definition CommitObject :: "Repository \<Rightarrow> string \<Rightarrow> string + Commit" where
  "CommitObject r h = CommitObjectResult r"

text \<open>
  \<^verbatim>\<open>Repository.CreateTag\<close>: on success the tag object and its reference are stored
  in the local repository; on failure nothing is stored.
\<close>

definition CreateTag ::
  "string \<Rightarrow> string \<Rightarrow> CreateTagOptions \<Rightarrow> Repository \<Rightarrow> string option \<times> Repository" where
  "CreateTag name h opts r =
     (case CreateTagError r of
        Some e \<Rightarrow> (Some e, r)
      | None \<Rightarrow>
          (None,
           r\<lparr>references := references r @ [''refs/tags/'' @ name],
             tagObjects := tagObjects r @ [\<lparr>tagName = name, tagTarget = h, tagOptions = opts\<rparr>]\<rparr>))"

text \<open>
  \<^verbatim>\<open>Repository.Push\<close>: the request is recorded, progress text goes to the
  \<^verbatim>\<open>Progress\<close> writer, and on success the push is recorded as having reached the
  remote; the references and tag objects of the local repository stay as they are.
\<close>

definition Push ::
  "PushOptions \<Rightarrow> Repository \<Rightarrow> Process \<Rightarrow> string option \<times> Repository \<times> Process" where
  "Push opts r p =
     (let p' = foldl (\<lambda>q s. Fprint (Progress opts) s q) p (PushProgress r);
          r' = r\<lparr>pushRequests := pushRequests r @ [opts]\<rparr>
      in case PushError r of
           Some e \<Rightarrow> (Some e, r', p')
         | None \<Rightarrow> (None, r'\<lparr>pushed := pushed r @ [opts]\<rparr>, p'))"

text \<open>The flags of the command line (struct \<^verbatim>\<open>Option\<close>).\<close>

record Option =
  optMajor :: bool
  optMinor :: bool
  optPatch :: bool
  optQuiet :: bool

text \<open>
  The environment of a run: what the packages outside this repository answer.
  \<open>NewVersion\<close> is \<^verbatim>\<open>semver.NewVersion\<close> (\<open>None\<close> when it returns an error),
  \<open>PlainOpen\<close> is \<^verbatim>\<open>git.PlainOpen\<close>, \<open>SelectRun\<close> is \<^verbatim>\<open>promptui.Select.Run\<close>
  (the index chosen and the error, for a label and a list of items), \<open>gitconfigUser\<close>
  and \<open>gitconfigEmail\<close> are \<^verbatim>\<open>gitconfig.User\<close> and \<^verbatim>\<open>gitconfig.Email\<close>,
  \<open>Getenv\<close> is \<^verbatim>\<open>os.Getenv\<close>, and \<open>ParseArgs\<close> is \<^verbatim>\<open>flags.ParseArgs\<close> (the
  flags and the remaining arguments, or an error).
\<close>

record Env =
  NewVersion :: "string \<Rightarrow> Version option"
  PlainOpen :: "string \<Rightarrow> string + Repository"
  SelectRun :: "string \<Rightarrow> Spec list \<Rightarrow> nat \<times> string option"
  gitconfigUser :: "string + string"
  gitconfigEmail :: "string + string"
  Getenv :: "string \<Rightarrow> string"
  ParseArgs :: "string list \<Rightarrow> string + Option \<times> string list"

subsection \<open>main.go\<close>

definition Prefix :: string where
  "Prefix = ''v''"

record CLI =
  Option :: Option
  Stdout :: Writer
  Stderr :: Writer
  Repo :: "Repository option"

text \<open>
  \<^verbatim>\<open>currentVersion\<close>, lines 179 to 194: the short names of the tag references, or the
  error of \<^verbatim>\<open>Tags\<close> or of \<^verbatim>\<open>ForEach\<close>.
\<close>

definition listTags :: "Repository \<Rightarrow> string + string list" where
  "listTags r =
     (case Tags r of
        Inl e \<Rightarrow> Inl e
      | Inr tagrefs \<Rightarrow>
          (case ForEachError r of
             Some e \<Rightarrow> Inl e
           | None \<Rightarrow> Inr (map Short (filter IsTag tagrefs))))"

text \<open>
  Lines 196 to 203: \<^verbatim>\<open>vs\<close> is made with one entry per tag, all nil; the entry of a tag
  that parses is set to its version, the entry of a tag that does not parse stays nil
  (\<^verbatim>\<open>continue\<close>).
\<close>

definition parseTags :: "Env \<Rightarrow> string list \<Rightarrow> Version option list" where
  "parseTags env tags = map (NewVersion env) tags"

text \<open>
  Lines 209 to 216: one line per entry, \<^verbatim>\<open>v.Original()\<close> dereferences the entry. The
  result is the panic that stopped the loop, if any, and the output so far.
\<close>

fun printTags :: "Writer \<Rightarrow> Version option list \<Rightarrow> Process \<Rightarrow> panic option \<times> Process" where
  "printTags w [] p = (None, p)"
| "printTags w (None # vs) p = (Some NilPointerDereference, p)"
| "printTags w (Some v # vs) p =
     printTags w vs
       (Fprint w
          (if vs = [] then ''- '' @ Original v @ '' (current version)\<newline>''
           else ''- '' @ Original v @ ''\<newline>'')
          p)"

text \<open>
  Lines 196 to 219: from the tag names to the current version. \<^verbatim>\<open>vs[len(vs)-1]\<close>
  panics when there is no tag at all.
\<close>

definition currentOf ::
  "Env \<Rightarrow> Writer \<Rightarrow> string list \<Rightarrow> Process \<Rightarrow> (failure + Version option) \<times> Process" where
  "currentOf env w tags p =
     (case sort_Sort (parseTags env tags) of
        Inl x \<Rightarrow> (Inl (Panic x), p)
      | Inr vs \<Rightarrow>
          if vs = [] then (Inl (Panic IndexOutOfRange), p)
          else
            (let current = last vs in
             case printTags w vs (Fprint w ''Tags:\<newline>'' p) of
               (Some x, p') \<Rightarrow> (Inl (Panic x), p')
             | (None, p') \<Rightarrow> (Inr current, Fprint w ''\<newline>'' p')))"

definition currentVersion ::
  "Env \<Rightarrow> CLI \<Rightarrow> Process \<Rightarrow> (failure + Version option) \<times> Process" where
  "currentVersion env c p =
     (case Repo c of
        None \<Rightarrow> (Inl (Panic NilPointerDereference), p)
      | Some r \<Rightarrow>
          (case listTags r of
             Inl e \<Rightarrow> (Inl (Error e), p)
           | Inr tags \<Rightarrow> currentOf env (Stdout c) tags p))"

text \<open>
  \<^verbatim>\<open>prompt\<close>: the menu is shown, and \<^verbatim>\<open>items[i]\<close> is returned with the error of
  the selection.
\<close>

definition prompt ::
  "Env \<Rightarrow> string \<Rightarrow> Spec list \<Rightarrow> Process \<Rightarrow> (panic + Spec \<times> string option) \<times> Process" where
  "prompt env label items p =
     (let p' = p\<lparr>prompts := prompts p @ [(label, items)]\<rparr> in
      case SelectRun env label items of
        (i, err) \<Rightarrow>
          if i < length items then (Inr (items ! i, err), p')
          else (Inl IndexOutOfRange, p'))"

text \<open>Whether the flag of a kind is set in the options.\<close>

fun declared :: "Option \<Rightarrow> Spec \<Rightarrow> bool" where
  "declared opt Major = optMajor opt"
| "declared opt Minor = optMinor opt"
| "declared opt Patch = optPatch opt"

text \<open>Lines 235 to 244: the kinds whose flags are set.\<close>

definition flagSpecs :: "Option \<Rightarrow> Spec list" where
  "flagSpecs opt =
     (if optMajor opt then [Major] else []) @
     (if optMinor opt then [Minor] else []) @
     (if optPatch opt then [Patch] else [])"

text \<open>
  Lines 253 to 256 and 262 to 265, which differ in the items only: the menu, and the
  error of an aborted selection wrapped by \<^verbatim>\<open>fmt.Errorf\<close>.
\<close>

definition promptSpec ::
  "Env \<Rightarrow> string \<Rightarrow> Spec list \<Rightarrow> Process \<Rightarrow> (failure + Spec) \<times> Process" where
  "promptSpec env label items p =
     (case prompt env label items p of
        (Inl x, p') \<Rightarrow> (Inl (Panic x), p')
      | (Inr (spec, Some e), p') \<Rightarrow>
          (Inl (Error (e @ '': failed to select valid semver spec'')), p')
      | (Inr (spec, None), p') \<Rightarrow> (Inr spec, p'))"

text \<open>Lines 246 to 266: the kind to bump, from the flags or from the menu.\<close>

definition resolveSpec ::
  "Env \<Rightarrow> CLI \<Rightarrow> Version \<Rightarrow> Process \<Rightarrow> (failure + Spec) \<times> Process" where
  "resolveSpec env c current p =
     (let specs = flagSpecs (Option c);
          label = ''Current tag is '' @ quote (Original current) @ ''. Next is?''
      in case specs of
           [] \<Rightarrow> promptSpec env label [Patch, Minor, Major] p
         | [spec] \<Rightarrow> (Inr spec, p)
         | _ \<Rightarrow> promptSpec env label specs p)"

text \<open>
  Lines 268 to 277: the switch on the kind. Its \<^verbatim>\<open>default\<close> branch (\<open>invalid semver\<close>)
  needs a \<^verbatim>\<open>Spec\<close> other than the three constants, which neither the flags nor the
  menus produce.
\<close>

fun bump :: "Spec \<Rightarrow> Version \<Rightarrow> Version" where
  "bump Major current = IncMajor current"
| "bump Minor current = IncMinor current"
| "bump Patch current = IncPatch current"

text \<open>
  \<^verbatim>\<open>nextVersion\<close>. Line 246 dereferences \<^verbatim>\<open>current\<close> on every path.
\<close>

definition nextVersion ::
  "Env \<Rightarrow> CLI \<Rightarrow> Version option \<Rightarrow> Process \<Rightarrow> (failure + Version) \<times> Process" where
  "nextVersion env c current p =
     (case current of
        None \<Rightarrow> (Inl (Panic NilPointerDereference), p)
      | Some cur \<Rightarrow>
          (case resolveSpec env c cur p of
             (Inl f, p') \<Rightarrow> (Inl f, p')
           | (Inr spec, p') \<Rightarrow> (Inr (bump spec cur), p')))"

text \<open>
  \<^verbatim>\<open>PushTag\<close>. The \<^verbatim>\<open>defer\<close> of line 164 runs when the function returns, after the
  push and whatever its result.
\<close>

definition PushTag ::
  "Env \<Rightarrow> string \<Rightarrow> CLI \<Rightarrow> Process \<Rightarrow> failure option \<times> CLI \<times> Process" where
  "PushTag env tag c p =
     (case Repo c of
        None \<Rightarrow> (Some (Panic NilPointerDereference), c, p)
      | Some r \<Rightarrow>
     (case Head r of
        Inl e \<Rightarrow> (Some (Error e), c, p)
      | Inr head \<Rightarrow>
     (case CommitObject r head of
        Inl e \<Rightarrow> (Some (Error e), c, p)
      | Inr commit \<Rightarrow>
     (case gitconfigUser env of
        Inl e \<Rightarrow> (Some (Error e), c, p)
      | Inr user \<Rightarrow>
     (case gitconfigEmail env of
        Inl e \<Rightarrow> (Some (Error e), c, p)
      | Inr email \<Rightarrow>
     (let opts =
            \<lparr>Tagger = \<lparr>Name = user, Email = email, When = committerWhen commit\<rparr>,
             Message = commitMessage commit\<rparr>
      in case CreateTag tag head opts r of
           (Some e, r1) \<Rightarrow> (Some (Error e), c\<lparr>Repo := Some r1\<rparr>, p)
         | (None, r1) \<Rightarrow>
             (let p1 = Fprint (Stdout c) (''Bump version to '' @ quote tag @ ''.\<newline>'') p;
                  rs = ''refs/tags/'' @ tag @ '':refs/tags/'' @ tag
              in case Push
                        \<lparr>Auth = \<lparr>Username = user, Password = Getenv env ''GITHUB_TOKEN''\<rparr>,
                         RemoteName = ''origin'',
                         RefSpecs = [rs],
                         Progress = Stdout c\<rparr>
                        r1 p1 of
                   (err, r2, p2) \<Rightarrow>
                     (map_option Error err,
                      c\<lparr>Repo := Some r2\<rparr>,
                      Fprint (Stdout c) ''Pushed to origin.\<newline>'' p2))))))))"

text \<open>Lines 102 to 105: the name of the tag to publish.\<close>

definition publishedTag :: "Version \<Rightarrow> Version \<Rightarrow> string" where
  "publishedTag current next =
     (if prefix Prefix (Original current) then Prefix @ String next else String next)"

text \<open>\<^verbatim>\<open>CLI.Run\<close>.\<close>

definition Run :: "Env \<Rightarrow> string list \<Rightarrow> CLI \<Rightarrow> Process \<Rightarrow> failure option \<times> CLI \<times> Process" where
  "Run env args c p =
     (let c1 = (if optQuiet (Option c)
                then c\<lparr>Stdout := ioutil_Discard, Stderr := ioutil_Discard\<rparr> else c);
          wd = (case args of [] \<Rightarrow> ''.'' | a # _ \<Rightarrow> a)
      in case PlainOpen env wd of
           Inl e \<Rightarrow> (Some (Error e), c1, p)
         | Inr r \<Rightarrow>
             (let c2 = c1\<lparr>Repo := Some r\<rparr> in
              case currentVersion env c2 p of
                (Inl f, p1) \<Rightarrow> (Some f, c2, p1)
              | (Inr current, p1) \<Rightarrow>
                  (case nextVersion env c2 current p1 of
                     (Inl f, p2) \<Rightarrow> (Some f, c2, p2)
                   | (Inr next, p2) \<Rightarrow>
                       (case current of
                          None \<Rightarrow> (Some (Panic NilPointerDereference), c2, p2)
                        | Some cur \<Rightarrow> PushTag env (publishedTag cur next) c2 p2))))"

text \<open>Lines 60 to 65: the \<^verbatim>\<open>CLI\<close> that \<^verbatim>\<open>run\<close> builds from the parsed flags.\<close>

definition newCLI :: "Option \<Rightarrow> CLI" where
  "newCLI opt = \<lparr>Option = opt, Stdout = os_Stdout, Stderr = os_Stderr, Repo = None\<rparr>"

text \<open>
  \<^verbatim>\<open>run\<close>: the exit code, or the panic that ended the process (the report that the
  Go runtime prints for a panic is not modelled). When the arguments do not parse, it
  returns 1 before a \<^verbatim>\<open>CLI\<close> exists; go-flags has printed its own message by then.
\<close>

definition run :: "Env \<Rightarrow> string list \<Rightarrow> Process \<Rightarrow> (panic + int) \<times> Process" where
  "run env args p =
     (case ParseArgs env args of
        Inl e \<Rightarrow> (Inr 1, p)
      | Inr (opt, args') \<Rightarrow>
          (case Run env args' (newCLI opt) p of
             (Some (Error msg), c, p') \<Rightarrow>
               (Inr 1, Fprint os_Stderr (''[ERROR] '' @ msg @ ''\<newline>'') p')
           | (Some (Panic x), c, p') \<Rightarrow> (Inl x, p')
           | (None, c, p') \<Rightarrow> (Inr 0, p')))"

subsection \<open>A sample run\<close>

text \<open>
  The scenarios of the spec's section 8, as concrete values: a repository with the tags
  v1.0.0, v1.1.0 and v1.1.1, the versions \<^verbatim>\<open>semver.NewVersion\<close> gives for these
  texts (and for 0.1.0), a user who picks the first item of every menu, and a command
  line read flag by flag.
\<close>

definition release :: "nat \<Rightarrow> nat \<Rightarrow> nat \<Rightarrow> string \<Rightarrow> Version" where
  "release a b c text =
     \<lparr>major = a, minor = b, patch = c, pre = [], metadata = [], original = text\<rparr>"

definition sampleVersions :: "string \<Rightarrow> Version option" where
  "sampleVersions =
     map_of
       [(''v1.0.0'', release 1 0 0 ''v1.0.0''),
        (''v1.1.0'', release 1 1 0 ''v1.1.0''),
        (''v1.1.1'', release 1 1 1 ''v1.1.1''),
        (''0.1.0'', release 0 1 0 ''0.1.0'')]"

definition sampleRepository :: Repository where
  "sampleRepository =
     \<lparr>references = [''refs/tags/v1.0.0'', ''refs/tags/v1.1.0'', ''refs/tags/v1.1.1''],
      tagObjects = [],
      pushRequests = [],
      pushed = [],
      TagsError = None,
      ForEachError = None,
      HeadResult = Inr ''4b825dc'',
      CommitObjectResult = Inr \<lparr>commitMessage = ''Fix typo'', committerWhen = 1600000000\<rparr>,
      CreateTagError = None,
      PushError = None,
      PushProgress = []\<rparr>"

fun sampleFlags :: "string list \<Rightarrow> string + Option \<times> string list" where
  "sampleFlags [] =
     Inr (\<lparr>optMajor = False, optMinor = False, optPatch = False, optQuiet = False\<rparr>, [])"
| "sampleFlags (a # args) =
     (case sampleFlags args of
        Inl e \<Rightarrow> Inl e
      | Inr (opt, rest) \<Rightarrow>
          if a = ''--major'' then Inr (opt\<lparr>optMajor := True\<rparr>, rest)
          else if a = ''--minor'' then Inr (opt\<lparr>optMinor := True\<rparr>, rest)
          else if a = ''--patch'' then Inr (opt\<lparr>optPatch := True\<rparr>, rest)
          else if a = ''-q'' \<or> a = ''--quiet'' then Inr (opt\<lparr>optQuiet := True\<rparr>, rest)
          else if prefix ''-'' a then Inl (''unknown flag '' @ a)
          else Inr (opt, a # rest))"

definition sampleEnv :: Env where
  "sampleEnv =
     \<lparr>NewVersion = sampleVersions,
      PlainOpen = (\<lambda>wd. Inr sampleRepository),
      SelectRun = (\<lambda>label items. (0, None)),
      gitconfigUser = Inr ''alice'',
      gitconfigEmail = Inr ''alice@example.com'',
      Getenv = (\<lambda>name. []),
      ParseArgs = sampleFlags\<rparr>"

text \<open>The same run against a remote that rejects the push.\<close>

definition rejectingRepository :: Repository where
  "rejectingRepository = sampleRepository\<lparr>PushError := Some ''authentication required''\<rparr>"

definition rejectingEnv :: Env where
  "rejectingEnv = sampleEnv\<lparr>PlainOpen := (\<lambda>wd. Inr rejectingRepository)\<rparr>"

definition sampleCLI :: "Option \<Rightarrow> CLI" where
  "sampleCLI opt =
     \<lparr>Option = opt, Stdout = os_Stdout, Stderr = os_Stderr, Repo = Some sampleRepository\<rparr>"

definition noFlags :: Option where
  "noFlags = \<lparr>optMajor = False, optMinor = False, optPatch = False, optQuiet = False\<rparr>"

definition noOutput :: Process where
  "noOutput = \<lparr>stdout = [], stderr = [], prompts = []\<rparr>"

section \<open>Properties\<close>

subsection \<open>Canonical strings\<close>

lemma digit_range: "d < 10 \<Longrightarrow> digit d \<in> set ''0123456789''"
  unfolding digit_def by (rule nth_mem) simp

lemma decimal_nonempty: "decimal n \<noteq> []"
  by (induction n rule: decimal.induct) (subst decimal.simps, simp)

lemma decimal_hd: "hd (decimal n) \<in> set ''0123456789''"
proof (induction n rule: decimal.induct)
  case (1 n)
  show ?case
  proof (cases "n < 10")
    case True
    then show ?thesis
      using digit_range [of n] by (subst decimal.simps) simp
  next
    case False
    then have "hd (decimal n) = hd (decimal (n div 10))"
      by (subst decimal.simps) (simp add: decimal_nonempty)
    with 1 False show ?thesis by simp
  qed
qed

lemma String_hd: "hd (String v) \<in> set ''0123456789''"
  using decimal_hd [of "major v"] by (simp add: String_def decimal_nonempty)

lemma String_nonempty: "String v \<noteq> []"
  by (simp add: String_def decimal_nonempty)

lemma String_no_prefix: "\<not> prefix ''v'' (String v)"
proof
  assume "prefix ''v'' (String v)"
  then obtain rest where "String v = CHR ''v'' # rest"
    by (auto simp: prefix_def)
  then have "hd (String v) = CHR ''v''" by simp
  with String_hd [of v] show False by simp
qed

subsection \<open>The order of versions\<close>

lemma cmp_flip: "cmp b a = - cmp a b"
  by (auto simp: cmp_def)

lemma Compare_flip: "Compare b a = - Compare a b"
  by (auto simp: Compare_def comparePrerelease_def cmp_flip [of "major b"] cmp_flip [of "minor b"]  cmp_flip [of "patch b"] cmp_flip [of "map identKey (splitDots (pre b))"])

lemma cmp_le_iff: "cmp a b \<le> 0 \<longleftrightarrow> a \<le> b"
  by (auto simp: cmp_def)

lemma Compare_trans: "Compare a b \<le> 0 \<Longrightarrow> Compare b c \<le> 0 \<Longrightarrow> Compare a c \<le> 0"
  by (auto simp: Compare_def comparePrerelease_def cmp_def split: if_splits)

lemma not_LessThan: "(\<not> LessThan b a) = (Compare a b \<le> 0)"
  using Compare_flip [of a b] by (auto simp: LessThan_def)

lemma set_insertSorted: "set (insertSorted v ws) = insert v (set ws)"
  by (induction ws) auto

lemma ascending_insertSorted:
  "sorted_wrt (\<lambda>a b. Compare a b \<le> 0) ws \<Longrightarrow>
   sorted_wrt (\<lambda>a b. Compare a b \<le> 0) (insertSorted v ws)"
proof (induction ws)
  case Nil
  then show ?case by simp
next
  case (Cons w ws)
  show ?case
  proof (cases "LessThan v w")
    case True
    then have vw: "Compare v w \<le> 0" by (simp add: LessThan_def)
    have "Compare v x \<le> 0" if "x \<in> set ws" for x
    proof -
      from Cons.prems that have "Compare w x \<le> 0" by simp
      with vw show ?thesis by (rule Compare_trans)
    qed
    with True vw Cons.prems show ?thesis by simp
  next
    case False
    then have "Compare w v \<le> 0" by (simp add: not_LessThan)
    with False Cons show ?thesis
      by (auto simp: set_insertSorted)
  qed
qed

lemma foldl_insertSorted:
  "sorted_wrt (\<lambda>a b. Compare a b \<le> 0) acc \<Longrightarrow>
   sorted_wrt (\<lambda>a b. Compare a b \<le> 0) (foldl (\<lambda>sorted v. insertSorted v sorted) acc vs) \<and>
   set (foldl (\<lambda>sorted v. insertSorted v sorted) acc vs) = set acc \<union> set vs"
proof (induction vs arbitrary: acc)
  case Nil
  then show ?case by simp
next
  case (Cons v vs)
  from Cons.prems have "sorted_wrt (\<lambda>a b. Compare a b \<le> 0) (insertSorted v acc)"
    by (rule ascending_insertSorted)
  from Cons.IH [OF this] show ?case
    by (auto simp: set_insertSorted)
qed

lemma ascending_insertionSort: "sorted_wrt (\<lambda>a b. Compare a b \<le> 0) (insertionSort vs)"
  unfolding insertionSort_def using foldl_insertSorted [of "[]" vs] by simp

lemma set_insertionSort: "set (insertionSort vs) = set vs"
  unfolding insertionSort_def using foldl_insertSorted [of "[]" vs] by simp

lemma length_insertSorted: "length (insertSorted v ws) = Suc (length ws)"
  by (induction ws) auto

lemma length_insertionSort: "length (insertionSort vs) = length vs"
proof -
  have "length (foldl (\<lambda>sorted v. insertSorted v sorted) acc vs) = length acc + length vs" for acc
    by (induction vs arbitrary: acc) (auto simp: length_insertSorted)
  then show ?thesis by (simp add: insertionSort_def)
qed

lemma Compare_refl: "Compare v v = 0"
  by (simp add: Compare_def comparePrerelease_def cmp_def)

lemma ascending_last:
  "sorted_wrt (\<lambda>a b. Compare a b \<le> 0) ws \<Longrightarrow> v \<in> set ws \<Longrightarrow> Compare v (last ws) \<le> 0"
proof (induction ws)
  case Nil
  then show ?case by simp
next
  case (Cons w ws)
  show ?case
  proof (cases "ws = []")
    case True
    with Cons.prems show ?thesis by (simp add: Compare_refl)
  next
    case False
    then have "last ws \<in> set ws" by simp
    with Cons False show ?thesis by auto
  qed
qed

subsection \<open>The current version\<close>

lemma those_map_Some: "those (map Some ws) = Some ws"
  by (induction ws) auto

lemma all_parsed:
  "list_all (\<lambda>t. f t \<noteq> None) tags \<Longrightarrow> \<exists>ws. map f tags = map Some ws"
proof (induction tags)
  case Nil
  then show ?case by simp
next
  case (Cons t tags)
  then obtain w ws where "f t = Some w" and "map f tags = map Some ws"
    by auto
  then have "map f (t # tags) = map Some (w # ws)" by simp
  then show ?case by blast
qed

lemma printTags_parsed: "fst (printTags w (map Some ws) p) = None"
  by (induction ws arbitrary: p) auto

lemma sort_Sort_parsed:
  "\<exists>ws'. sort_Sort (map Some ws) = Inr (map Some ws') \<and> set ws' = set ws \<and>
     length ws' = length ws \<and> sorted_wrt (\<lambda>a b. Compare a b \<le> 0) ws'"
proof (cases "length ws < 2")
  case True
  then have "ws = [] \<or> (\<exists>v. ws = [v])"
    by (cases ws) (auto simp: less_Suc_eq_0_disj)
  then have "sorted_wrt (\<lambda>a b. Compare a b \<le> 0) ws" by auto
  with True show ?thesis by (auto simp: sort_Sort_def)
next
  case False
  then have "sort_Sort (map Some ws) = Inr (map Some (insertionSort ws))"
    by (simp add: sort_Sort_def those_map_Some)
  then show ?thesis
    using set_insertionSort length_insertionSort ascending_insertionSort by blast
qed

lemma currentOf_parsed:
  assumes "tags \<noteq> []" and "list_all (\<lambda>t. NewVersion env t \<noteq> None) tags"
  shows "\<exists>cur p'. currentOf env w tags p = (Inr (Some cur), p') \<and>
           Some cur \<in> set (parseTags env tags) \<and>
           (\<forall>v. Some v \<in> set (parseTags env tags) \<longrightarrow> 0 \<le> Compare cur v)"
proof -
  from assms(2) obtain ws where ws: "parseTags env tags = map Some ws"
    unfolding parseTags_def using all_parsed by blast
  with assms(1) have "ws \<noteq> []" by (auto simp: parseTags_def)
  from sort_Sort_parsed [of ws] obtain ws' where
    srt: "sort_Sort (map Some ws) = Inr (map Some ws')" and
    same: "set ws' = set ws" and len: "length ws' = length ws" and
    asc: "sorted_wrt (\<lambda>a b. Compare a b \<le> 0) ws'"
    by blast
  from len \<open>ws \<noteq> []\<close> have ne: "ws' \<noteq> []" by auto
  obtain q where q: "printTags w (map Some ws') (Fprint w ''Tags:\<newline>'' p) = (None, q)"
    using printTags_parsed [of w ws' "Fprint w ''Tags:\<newline>'' p"]
    by (cases "printTags w (map Some ws') (Fprint w ''Tags:\<newline>'' p)") auto
  from ne have res: "currentOf env w tags p = (Inr (Some (last ws')), Fprint w ''\<newline>'' q)"
    by (simp add: currentOf_def ws srt q last_map)
  from ne same have mem: "Some (last ws') \<in> set (parseTags env tags)"
    using last_in_set [of ws'] by (auto simp: ws)
  have "0 \<le> Compare (last ws') v" if "Some v \<in> set (parseTags env tags)" for v
  proof -
    from that same have "v \<in> set ws'" by (auto simp: ws)
    with asc have "Compare v (last ws') \<le> 0" by (rule ascending_last)
    then show ?thesis using Compare_flip [of v "last ws'"] by simp
  qed
  with res mem show ?thesis by blast
qed

lemma those_None: "None \<in> set vs \<Longrightarrow> those vs = None"
  by (induction vs) (auto split: option.splits)

lemma currentOf_nil:
  assumes "t \<in> set tags" and "NewVersion env t = None"
  shows "fst (currentOf env w tags p) = Inl (Panic NilPointerDereference)"
proof -
  from assms have nil: "None \<in> set (parseTags env tags)"
    by (force simp: parseTags_def)
  show ?thesis
  proof (cases "length (parseTags env tags) < 2")
    case True
    with nil have "parseTags env tags = [None]"
      by (cases "parseTags env tags") (auto simp: less_Suc_eq_0_disj)
    then show ?thesis by (simp add: currentOf_def sort_Sort_def)
  next
    case False
    with nil show ?thesis
      by (simp add: currentOf_def sort_Sort_def those_None)
  qed
qed

lemma currentOf_empty: "currentOf env w [] p = (Inl (Panic IndexOutOfRange), p)"
  by (simp add: currentOf_def sort_Sort_def parseTags_def)

lemma currentOf_not_Error: "fst (currentOf env w tags p) \<noteq> Inl (Error e)"
  by (auto simp: currentOf_def split: sum.splits prod.splits option.splits)

lemma sample_tags: "listTags sampleRepository = Inr [''v1.0.0'', ''v1.1.0'', ''v1.1.1'']"
  by (simp add: listTags_def Tags_def sampleRepository_def IsTag_def Short_def)

lemma sample_parsed:
  "list_all (\<lambda>t. NewVersion sampleEnv t \<noteq> None) [''v1.0.0'', ''v1.1.0'', ''v1.1.1'']"
  by (simp add: sampleEnv_def sampleVersions_def)

lemma sample_current:
  "fst (currentVersion sampleEnv (sampleCLI noFlags) noOutput) =
     Inr (Some (release 1 1 1 ''v1.1.1''))"
  by code_simp

text \<open>
  Claim C1 says that a tag which is not a semantic version is skipped without aborting
  the scan, and that a scan which finds no version reports \<open>NoVersionsFound\<close>. The code
  does neither. With the tags foo and v1.0.0 the entry of foo stays nil and the sort
  dereferences it: \<^verbatim>\<open>currentVersion\<close> panics instead of returning v1.0.0. With no tag
  at all \<^verbatim>\<open>vs[len(vs)-1]\<close> is out of range: it panics instead of returning an error.
  In both runs nothing has been printed yet. (\<open>currentOf_nil\<close> and \<open>currentOf_empty\<close>
  above say the same for every list of tags and every parser.)
\<close>

theorem currentVersion_unparseable_tag_panics:
  "currentVersion sampleEnv
     (sampleCLI noFlags
        \<lparr>Repo := Some (sampleRepository
                         \<lparr>references := [''refs/tags/foo'', ''refs/tags/v1.0.0'']\<rparr>)\<rparr>)
     noOutput = (Inl (Panic NilPointerDereference), noOutput) \<and>
   currentVersion sampleEnv
     (sampleCLI noFlags\<lparr>Repo := Some (sampleRepository\<lparr>references := []\<rparr>)\<rparr>)
     noOutput = (Inl (Panic IndexOutOfRange), noOutput)"
  by code_simp

text \<open>
  Claim C6: when the repository has at least one tag and every tag parses,
  \<^verbatim>\<open>currentVersion\<close> returns one of the parsed versions, and that version is greater
  than or equal to every parsed version in the order of \<open>Compare\<close> (major, then minor,
  then patch, then pre-release precedence).
\<close>

theorem currentVersion_greatest:
  assumes "Repo c = Some r" and "listTags r = Inr tags" and "tags \<noteq> []"
    and "list_all (\<lambda>t. NewVersion env t \<noteq> None) tags"
  shows "\<exists>cur p'. currentVersion env c p = (Inr (Some cur), p') \<and>
           Some cur \<in> set (parseTags env tags) \<and>
           (\<forall>v. Some v \<in> set (parseTags env tags) \<longrightarrow> 0 \<le> Compare cur v)"
  using assms(1,2) currentOf_parsed [OF assms(3,4), of "Stdout c" p]
  by (simp add: currentVersion_def)

text \<open>
  C6 on the sample repository: the tags v1.0.0, v1.1.0 and v1.1.1 all parse, and the
  current version is v1.1.1.
\<close>

theorem currentVersion_greatest_sample:
  "Repo (sampleCLI noFlags) = Some sampleRepository \<and>
   listTags sampleRepository = Inr [''v1.0.0'', ''v1.1.0'', ''v1.1.1''] \<and>
   list_all (\<lambda>t. NewVersion sampleEnv t \<noteq> None) [''v1.0.0'', ''v1.1.0'', ''v1.1.1''] \<and>
   (\<exists>cur p'. currentVersion sampleEnv (sampleCLI noFlags) noOutput = (Inr (Some cur), p') \<and>
      Some cur \<in> set (parseTags sampleEnv [''v1.0.0'', ''v1.1.0'', ''v1.1.1'']) \<and>
      (\<forall>v. Some v \<in> set (parseTags sampleEnv [''v1.0.0'', ''v1.1.0'', ''v1.1.1'']) \<longrightarrow>
           0 \<le> Compare cur v)) \<and>
   fst (currentVersion sampleEnv (sampleCLI noFlags) noOutput) =
     Inr (Some (release 1 1 1 ''v1.1.1''))"
proof -
  have repo: "Repo (sampleCLI noFlags) = Some sampleRepository"
    by (simp add: sampleCLI_def)
  have ne: "[''v1.0.0'', ''v1.1.0'', ''v1.1.1''] \<noteq> ([] :: string list)" by simp
  show ?thesis
    using repo sample_tags sample_parsed sample_current
      currentVersion_greatest [OF repo sample_tags ne sample_parsed, of noOutput]
    by simp
qed

subsection \<open>The kind to bump\<close>

lemma flagSpecs_declared: "flagSpecs opt = filter (declared opt) [Major, Minor, Patch]"
  by (simp add: flagSpecs_def)

lemma prompt_shown:
  "prompts (snd (prompt env label items p)) = prompts p @ [(label, items)]"
  by (simp add: prompt_def Let_def split: prod.splits)

lemma promptSpec_shown:
  "prompts (snd (promptSpec env label items p)) = prompts p @ [(label, items)]"
  using prompt_shown [of env label items p]
  by (auto simp: promptSpec_def split: prod.splits sum.splits option.splits)

lemma promptSpec_selected:
  "SelectRun env label items = (i, None) \<Longrightarrow> i < length items \<Longrightarrow>
   promptSpec env label items p = (Inr (items ! i), p\<lparr>prompts := prompts p @ [(label, items)]\<rparr>)"
  by (simp add: promptSpec_def prompt_def)

lemma resolveSpec_one_flag:
  "flagSpecs (Option c) = [k] \<Longrightarrow> resolveSpec env c cur p = (Inr k, p)"
  by (simp add: resolveSpec_def)

lemma nextVersion_resolved:
  "resolveSpec env c cur p = (Inr k, p') \<Longrightarrow> nextVersion env c (Some cur) p = (Inr (bump k cur), p')"
  by (simp add: nextVersion_def)

lemma nextVersion_process:
  "snd (nextVersion env c (Some cur) p) = snd (resolveSpec env c cur p)"
  by (auto simp: nextVersion_def split: prod.splits sum.splits)

lemma nextVersion_fst:
  "fst (resolveSpec env c cur p) = Inr k \<Longrightarrow> fst (nextVersion env c (Some cur) p) = Inr (bump k cur)"
  by (cases "resolveSpec env c cur p") (simp add: nextVersion_def)

text \<open>
  Claim C9: when no flag of a kind is set, \<^verbatim>\<open>nextVersion\<close> shows one menu, with the
  items Patch, Minor, Major in this order and a label that quotes the original text of
  the current version; when the user selects the item at index \<open>i\<close> and the selection
  returns no error, that item is the kind that is bumped. When exactly one flag is set,
  its kind is bumped and the process is left as it was: no menu is shown.
\<close>

theorem nextVersion_zero_or_one_flag:
  "(filter (declared (Option c)) [Major, Minor, Patch] = [] \<longrightarrow>
      prompts (snd (nextVersion env c (Some cur) p)) =
        prompts p @
          [(''Current tag is '' @ quote (Original cur) @ ''. Next is?'', [Patch, Minor, Major])] \<and>
      (\<forall>i. i < 3 \<and>
           SelectRun env (''Current tag is '' @ quote (Original cur) @ ''. Next is?'')
             [Patch, Minor, Major] = (i, None) \<longrightarrow>
         fst (resolveSpec env c cur p) = Inr ([Patch, Minor, Major] ! i) \<and>
         fst (nextVersion env c (Some cur) p) = Inr (bump ([Patch, Minor, Major] ! i) cur))) \<and>
   (filter (declared (Option c)) [Major, Minor, Patch] = [k] \<longrightarrow>
      resolveSpec env c cur p = (Inr k, p) \<and>
      nextVersion env c (Some cur) p = (Inr (bump k cur), p))"
proof (intro conjI impI allI)
  assume zero: "filter (declared (Option c)) [Major, Minor, Patch] = []"
  then have specs: "flagSpecs (Option c) = []" by (simp add: flagSpecs_declared)
  let ?label = "''Current tag is '' @ quote (Original cur) @ ''. Next is?''"
  have menu: "resolveSpec env c cur p = promptSpec env ?label [Patch, Minor, Major] p"
    by (simp add: resolveSpec_def specs)
  show "prompts (snd (nextVersion env c (Some cur) p)) = prompts p @ [(?label, [Patch, Minor, Major])]"
    by (simp add: nextVersion_process menu promptSpec_shown)
  fix i
  assume "i < 3 \<and> SelectRun env ?label [Patch, Minor, Major] = (i, None)"
  then have sel: "resolveSpec env c cur p =
      (Inr ([Patch, Minor, Major] ! i), p\<lparr>prompts := prompts p @ [(?label, [Patch, Minor, Major])]\<rparr>)"
    using promptSpec_selected [of env ?label "[Patch, Minor, Major]" i p] by (simp add: menu)
  then show "fst (resolveSpec env c cur p) = Inr ([Patch, Minor, Major] ! i)" by simp
  from sel show "fst (nextVersion env c (Some cur) p) = Inr (bump ([Patch, Minor, Major] ! i) cur)"
    by (simp add: nextVersion_def)
next
  assume "filter (declared (Option c)) [Major, Minor, Patch] = [k]"
  then have specs: "flagSpecs (Option c) = [k]" by (simp add: flagSpecs_declared)
  then show one: "resolveSpec env c cur p = (Inr k, p)"
    by (simp add: resolveSpec_def)
  then show "nextVersion env c (Some cur) p = (Inr (bump k cur), p)"
    by (rule nextVersion_resolved)
qed

text \<open>
  C9 on the sample run: without flags the menu is shown and the first item, Patch, is
  taken; with \<^verbatim>\<open>--minor\<close> alone the minor version is bumped and nothing is shown.
\<close>

theorem nextVersion_zero_or_one_flag_sample:
  "filter (declared (Option (sampleCLI noFlags))) [Major, Minor, Patch] = [] \<and>
   map snd (prompts (snd (nextVersion sampleEnv (sampleCLI noFlags)
        (Some (release 1 1 1 ''v1.1.1'')) noOutput))) = [[Patch, Minor, Major]] \<and>
   SelectRun sampleEnv
     (''Current tag is '' @ quote (Original (release 1 1 1 ''v1.1.1'')) @ ''. Next is?'')
     [Patch, Minor, Major] = (0, None) \<and>
   fst (nextVersion sampleEnv (sampleCLI noFlags) (Some (release 1 1 1 ''v1.1.1'')) noOutput) =
     Inr (bump Patch (release 1 1 1 ''v1.1.1'')) \<and>
   filter (declared (Option (sampleCLI (noFlags\<lparr>optMinor := True\<rparr>)))) [Major, Minor, Patch] = [Minor] \<and>
   nextVersion sampleEnv (sampleCLI (noFlags\<lparr>optMinor := True\<rparr>))
     (Some (release 1 1 1 ''v1.1.1'')) noOutput =
     (Inr (bump Minor (release 1 1 1 ''v1.1.1'')), noOutput)"
proof -
  have zero: "filter (declared (Option (sampleCLI noFlags))) [Major, Minor, Patch] = []"
    by (simp add: sampleCLI_def noFlags_def)
  have one: "filter (declared (Option (sampleCLI (noFlags\<lparr>optMinor := True\<rparr>)))) [Major, Minor, Patch] = [Minor]"
    by (simp add: sampleCLI_def noFlags_def)
  have pick: "SelectRun sampleEnv
     (''Current tag is '' @ quote (Original (release 1 1 1 ''v1.1.1'')) @ ''. Next is?'')
     [Patch, Minor, Major] = (0, None)"
    by (simp add: sampleEnv_def)
  show ?thesis
    using zero one pick
      nextVersion_zero_or_one_flag [where c = "sampleCLI noFlags" and env = sampleEnv
        and cur = "release 1 1 1 ''v1.1.1''" and p = noOutput and k = Minor]
      nextVersion_zero_or_one_flag [where c = "sampleCLI (noFlags\<lparr>optMinor := True\<rparr>)"
        and env = sampleEnv and cur = "release 1 1 1 ''v1.1.1''" and p = noOutput and k = Minor]
    by (simp add: noOutput_def)
qed

text \<open>
  Claim C2 says that with two or more flags the menu lists the declared kinds in the
  order Patch, Minor, Major. The code builds the list by appending Major, then Minor,
  then Patch (lines 236 to 244) and hands it to the menu as it is: with
  \<^verbatim>\<open>--major --patch\<close> the menu is Major, Patch, not Patch, Major.
\<close>

theorem nextVersion_menu_major_patch:
  "map snd (prompts (snd (nextVersion sampleEnv
        (sampleCLI (noFlags\<lparr>optMajor := True, optPatch := True\<rparr>))
        (Some (release 1 1 1 ''v1.1.1'')) noOutput))) = [[Major, Patch]] \<and>
   map snd (prompts (snd (nextVersion sampleEnv
        (sampleCLI (noFlags\<lparr>optMajor := True, optPatch := True\<rparr>))
        (Some (release 1 1 1 ''v1.1.1'')) noOutput))) \<noteq> [[Patch, Major]]"
  by code_simp

text \<open>
  Claim C2 as amended: with two or more flags set, \<^verbatim>\<open>nextVersion\<close> shows one menu
  whose items are exactly the declared kinds, in the order Major, Minor, Patch, under
  the label that quotes the current version.
\<close>

theorem nextVersion_menu_of_declared:
  assumes "2 \<le> length (filter (declared (Option c)) [Major, Minor, Patch])"
  shows "prompts (snd (nextVersion env c (Some cur) p)) =
           prompts p @
             [(''Current tag is '' @ quote (Original cur) @ ''. Next is?'',
               filter (declared (Option c)) [Major, Minor, Patch])]"
proof -
  let ?label = "''Current tag is '' @ quote (Original cur) @ ''. Next is?''"
  from assms obtain a b rest where "flagSpecs (Option c) = a # b # rest"
    unfolding flagSpecs_declared [symmetric]
    by (cases "flagSpecs (Option c)"; cases "tl (flagSpecs (Option c))") auto
  then have "resolveSpec env c cur p = promptSpec env ?label (flagSpecs (Option c)) p"
    by (simp add: resolveSpec_def)
  then show ?thesis
    by (simp add: nextVersion_process promptSpec_shown flagSpecs_declared)
qed

text \<open>
  C2 as amended on the sample run with \<^verbatim>\<open>--major --patch\<close>.
\<close>

theorem nextVersion_menu_of_declared_sample:
  "2 \<le> length (filter (declared (Option (sampleCLI (noFlags\<lparr>optMajor := True, optPatch := True\<rparr>))))
            [Major, Minor, Patch]) \<and>
   prompts (snd (nextVersion sampleEnv
        (sampleCLI (noFlags\<lparr>optMajor := True, optPatch := True\<rparr>))
        (Some (release 1 1 1 ''v1.1.1'')) noOutput)) =
     [(''Current tag is '' @ quote ''v1.1.1'' @ ''. Next is?'', [Major, Patch])]"
proof -
  have two: "2 \<le> length (filter (declared (Option (sampleCLI (noFlags\<lparr>optMajor := True, optPatch := True\<rparr>))))
            [Major, Minor, Patch])"
    by (simp add: sampleCLI_def noFlags_def)
  show ?thesis
    using two nextVersion_menu_of_declared [OF two, of sampleEnv "release 1 1 1 ''v1.1.1''" noOutput]
    by (simp add: sampleCLI_def noFlags_def noOutput_def Original_def release_def)
qed

subsection \<open>The next version\<close>

lemma bump_components:
  "(major (bump k v), minor (bump k v), patch (bump k v)) =
     (case k of Major \<Rightarrow> (major v + 1, 0, 0)
              | Minor \<Rightarrow> (major v, minor v + 1, 0)
              | Patch \<Rightarrow> (major v, minor v, patch v + 1))"
  by (cases k) (simp_all add: IncMajor_def IncMinor_def IncPatch_def released_def)

lemma bump_clean: "pre (bump k v) = [] \<and> metadata (bump k v) = []"
  by (cases k) (simp_all add: IncMajor_def IncMinor_def IncPatch_def released_def)

lemma bump_greater: "Compare (bump k v) v = 1"
  by (cases k) (simp_all add: IncMajor_def IncMinor_def IncPatch_def released_def Compare_def cmp_def)

lemma bump_twice:
  "(major (bump k (bump k v)), minor (bump k (bump k v)), patch (bump k (bump k v))) =
     (case k of Major \<Rightarrow> (major v + 2, 0, 0)
              | Minor \<Rightarrow> (major v, minor v + 2, 0)
              | Patch \<Rightarrow> (major v, minor v, patch v + 2))"
  by (cases k) (simp_all add: IncMajor_def IncMinor_def IncPatch_def released_def)

text \<open>
  Claim C4: whatever kind \<open>k\<close> is resolved, \<^verbatim>\<open>nextVersion\<close> returns a version (it
  does not fail), whose triple is (major+1, 0, 0) for Major, (major, minor+1, 0) for
  Minor and (major, minor, patch+1) for Patch, and which has neither pre-release nor
  build metadata.
\<close>

theorem nextVersion_components:
  assumes "fst (resolveSpec env c cur p) = Inr k"
  shows "\<exists>next. fst (nextVersion env c (Some cur) p) = Inr next \<and>
           (major next, minor next, patch next) =
             (case k of Major \<Rightarrow> (major cur + 1, 0, 0)
                      | Minor \<Rightarrow> (major cur, minor cur + 1, 0)
                      | Patch \<Rightarrow> (major cur, minor cur, patch cur + 1)) \<and>
           pre next = [] \<and> metadata next = []"
  using nextVersion_fst [OF assms] bump_components [of k cur] bump_clean [of k cur]
  by simp

text \<open>
  C4 on a version with pre-release and build metadata: a major bump of
  1.2.3-beta.1+build5 is 2.0.0.
\<close>

theorem nextVersion_components_sample:
  "fst (resolveSpec sampleEnv (sampleCLI (noFlags\<lparr>optMajor := True\<rparr>))
          \<lparr>major = 1, minor = 2, patch = 3, pre = ''beta.1'', metadata = ''build5'',
            original = ''v1.2.3-beta.1+build5''\<rparr> noOutput) = Inr Major \<and>
   (\<exists>next. fst (nextVersion sampleEnv (sampleCLI (noFlags\<lparr>optMajor := True\<rparr>))
          (Some \<lparr>major = 1, minor = 2, patch = 3, pre = ''beta.1'', metadata = ''build5'',
                 original = ''v1.2.3-beta.1+build5''\<rparr>) noOutput) = Inr next \<and>
      (major next, minor next, patch next) = (2, 0, 0) \<and> pre next = [] \<and> metadata next = [])"
proof -
  have kind: "fst (resolveSpec sampleEnv (sampleCLI (noFlags\<lparr>optMajor := True\<rparr>))
          \<lparr>major = 1, minor = 2, patch = 3, pre = ''beta.1'', metadata = ''build5'',
            original = ''v1.2.3-beta.1+build5''\<rparr> noOutput) = Inr Major"
    by (simp add: resolveSpec_one_flag flagSpecs_def sampleCLI_def noFlags_def)
  show ?thesis
    using kind nextVersion_components [OF kind] by (simp add: numeral_2_eq_2)
qed

text \<open>
  Claim C5: the version that \<^verbatim>\<open>nextVersion\<close> returns is strictly greater than the
  current one in the order of \<open>Compare\<close>; and when \<^verbatim>\<open>nextVersion\<close> is applied to
  its own result with the same kind resolved again, the outcome is the current version
  with that component greater by two (and the components below it zero).
\<close>

theorem nextVersion_greater:
  assumes "fst (resolveSpec env c cur p) = Inr k"
  shows "\<exists>next. fst (nextVersion env c (Some cur) p) = Inr next \<and>
           Compare next cur = 1 \<and> LessThan cur next \<and>
           (\<forall>env' c' p'. fst (resolveSpec env' c' next p') = Inr k \<longrightarrow>
              (\<exists>next2. fst (nextVersion env' c' (Some next) p') = Inr next2 \<and>
                 (major next2, minor next2, patch next2) =
                   (case k of Major \<Rightarrow> (major cur + 2, 0, 0)
                            | Minor \<Rightarrow> (major cur, minor cur + 2, 0)
                            | Patch \<Rightarrow> (major cur, minor cur, patch cur + 2)) \<and>
                 pre next2 = [] \<and> metadata next2 = []))"
proof -
  have gt: "Compare (bump k cur) cur = 1" by (rule bump_greater)
  then have lt: "LessThan cur (bump k cur)"
    using Compare_flip [of "bump k cur" cur] by (simp add: LessThan_def)
  have twice: "\<exists>next2. fst (nextVersion env' c' (Some (bump k cur)) p') = Inr next2 \<and>
                 (major next2, minor next2, patch next2) =
                   (case k of Major \<Rightarrow> (major cur + 2, 0, 0)
                            | Minor \<Rightarrow> (major cur, minor cur + 2, 0)
                            | Patch \<Rightarrow> (major cur, minor cur, patch cur + 2)) \<and>
                 pre next2 = [] \<and> metadata next2 = []"
    if "fst (resolveSpec env' c' (bump k cur) p') = Inr k" for env' c' p'
    using nextVersion_fst [OF that] bump_twice [of k cur] bump_clean [of k "bump k cur"]
    by simp
  from nextVersion_fst [OF assms] gt lt twice show ?thesis by blast
qed

text \<open>
  C5 on the spec's example: two patch bumps from 1.2.3 give 1.2.5.
\<close>

theorem nextVersion_greater_sample:
  "fst (resolveSpec sampleEnv (sampleCLI (noFlags\<lparr>optPatch := True\<rparr>))
          (release 1 2 3 ''1.2.3'') noOutput) = Inr Patch \<and>
   (\<exists>next. fst (nextVersion sampleEnv (sampleCLI (noFlags\<lparr>optPatch := True\<rparr>))
          (Some (release 1 2 3 ''1.2.3'')) noOutput) = Inr next \<and>
      Compare next (release 1 2 3 ''1.2.3'') = 1 \<and>
      (\<exists>next2. fst (nextVersion sampleEnv (sampleCLI (noFlags\<lparr>optPatch := True\<rparr>))
                (Some next) noOutput) = Inr next2 \<and>
          (major next2, minor next2, patch next2) = (1, 2, 5) \<and> String next2 = ''1.2.5''))"
proof -
  let ?c = "sampleCLI (noFlags\<lparr>optPatch := True\<rparr>)"
  have one: "flagSpecs (Option ?c) = [Patch]"
    by (simp add: flagSpecs_def sampleCLI_def noFlags_def)
  have kind: "fst (resolveSpec sampleEnv ?c v q) = Inr Patch" for v q
    by (simp add: resolveSpec_one_flag [OF one])
  from nextVersion_greater [OF kind [of "release 1 2 3 ''1.2.3''"]]
  obtain nextv where
    first: "fst (nextVersion sampleEnv ?c (Some (release 1 2 3 ''1.2.3'')) noOutput) = Inr nextv" and
    gt: "Compare nextv (release 1 2 3 ''1.2.3'') = 1" and
    again: "\<forall>env' c' p'. fst (resolveSpec env' c' nextv p') = Inr Patch \<longrightarrow>
              (\<exists>next2. fst (nextVersion env' c' (Some nextv) p') = Inr next2 \<and>
                 (major next2, minor next2, patch next2) =
                   (case Patch of Major \<Rightarrow> (major (release 1 2 3 ''1.2.3'') + 2, 0, 0)
                            | Minor \<Rightarrow> (major (release 1 2 3 ''1.2.3''), minor (release 1 2 3 ''1.2.3'') + 2, 0)
                            | Patch \<Rightarrow> (major (release 1 2 3 ''1.2.3''), minor (release 1 2 3 ''1.2.3''), patch (release 1 2 3 ''1.2.3'') + 2)) \<and>
                 pre next2 = [] \<and> metadata next2 = [])"
    by blast
  from again [rule_format, OF kind [of nextv noOutput]] obtain next2 where
    second: "fst (nextVersion sampleEnv ?c (Some nextv) noOutput) = Inr next2" and
    comps: "(major next2, minor next2, patch next2) = (1, 2, 5)" and
    clean: "pre next2 = []" "metadata next2 = []"
    by (auto simp: release_def)
  have "decimal 1 = ''1''" "decimal 2 = ''2''" "decimal 5 = ''5''"
    by (simp_all add: decimal.simps digit_def)
  with comps clean have "String next2 = ''1.2.5''"
    by (simp add: String_def)
  with kind first gt second comps show ?thesis by blast
qed

subsection \<open>The published tag\<close>

lemma publishedTag_prefix:
  "prefix ''v'' (publishedTag cur next) \<longleftrightarrow> prefix ''v'' (Original cur)"
  using String_no_prefix [of "next"] by (simp add: publishedTag_def Prefix_def)

text \<open>
  Claim C7: in a run that has a current and a next version, \<^verbatim>\<open>Run\<close> hands
  \<^verbatim>\<open>PushTag\<close> the name \<open>publishedTag cur next\<close>; this name starts with \<open>v\<close> if and only
  if the original text of the current version does; it is \<open>v\<close> followed by the canonical
  string of the next version in that case, and the canonical string alone otherwise.
\<close>

theorem Run_published_tag:
  assumes "PlainOpen env (case args of [] \<Rightarrow> ''.'' | a # _ \<Rightarrow> a) = Inr r"
    and "c2 = (if optQuiet (Option c)
               then c\<lparr>Stdout := ioutil_Discard, Stderr := ioutil_Discard\<rparr> else c)\<lparr>Repo := Some r\<rparr>"
    and "currentVersion env c2 p = (Inr (Some cur), p1)"
    and "nextVersion env c2 (Some cur) p1 = (Inr next, p2)"
  shows "Run env args c p = PushTag env (publishedTag cur next) c2 p2 \<and>
         (prefix ''v'' (publishedTag cur next) \<longleftrightarrow> prefix ''v'' (Original cur)) \<and>
         (prefix ''v'' (Original cur) \<longrightarrow> publishedTag cur next = ''v'' @ String next) \<and>
         (\<not> prefix ''v'' (Original cur) \<longrightarrow> publishedTag cur next = String next)"
proof -
  from assms have "Run env args c p = PushTag env (publishedTag cur next) c2 p2"
    by (simp add: Run_def Let_def)
  then show ?thesis
    using publishedTag_prefix [of cur "next"] by (simp add: publishedTag_def Prefix_def)
qed

text \<open>
  C7 on the sample run with \<^verbatim>\<open>--patch\<close>: the current version is v1.1.1 and the tag is
  v1.1.2; and for a current version 0.1.0 a major bump is published as 1.0.0.
\<close>

theorem Run_published_tag_sample:
  "PlainOpen sampleEnv ''.'' = Inr sampleRepository \<and>
   fst (currentVersion sampleEnv (sampleCLI (noFlags\<lparr>optPatch := True\<rparr>)) noOutput) =
     Inr (Some (release 1 1 1 ''v1.1.1'')) \<and>
   fst (nextVersion sampleEnv (sampleCLI (noFlags\<lparr>optPatch := True\<rparr>))
          (Some (release 1 1 1 ''v1.1.1''))
          (snd (currentVersion sampleEnv (sampleCLI (noFlags\<lparr>optPatch := True\<rparr>)) noOutput))) =
     Inr (IncPatch (release 1 1 1 ''v1.1.1'')) \<and>
   Run sampleEnv [] (newCLI (noFlags\<lparr>optPatch := True\<rparr>)) noOutput =
     PushTag sampleEnv ''v1.1.2'' (sampleCLI (noFlags\<lparr>optPatch := True\<rparr>))
       (snd (currentVersion sampleEnv (sampleCLI (noFlags\<lparr>optPatch := True\<rparr>)) noOutput)) \<and>
   prefix ''v'' (Original (release 1 1 1 ''v1.1.1'')) \<and>
   publishedTag (release 1 1 1 ''v1.1.1'') (IncPatch (release 1 1 1 ''v1.1.1'')) = ''v1.1.2'' \<and>
   \<not> prefix ''v'' (Original (release 0 1 0 ''0.1.0'')) \<and>
   publishedTag (release 0 1 0 ''0.1.0'') (IncMajor (release 0 1 0 ''0.1.0'')) = ''1.0.0''"
proof -
  let ?opt = "noFlags\<lparr>optPatch := True\<rparr>"
  let ?cur = "release 1 1 1 ''v1.1.1''"
  let ?p1 = "snd (currentVersion sampleEnv (sampleCLI ?opt) noOutput)"
  have opened: "PlainOpen sampleEnv (case [] of [] \<Rightarrow> ''.'' | a # _ \<Rightarrow> a) = Inr sampleRepository"
    by (simp add: sampleEnv_def)
  have c2: "sampleCLI ?opt =
      (if optQuiet (Option (newCLI ?opt))
       then (newCLI ?opt)\<lparr>Stdout := ioutil_Discard, Stderr := ioutil_Discard\<rparr>
       else newCLI ?opt)\<lparr>Repo := Some sampleRepository\<rparr>"
    by (simp add: sampleCLI_def newCLI_def noFlags_def)
  have cur1: "fst (currentVersion sampleEnv (sampleCLI ?opt) noOutput) = Inr (Some ?cur)"
    by code_simp
  then have cur: "currentVersion sampleEnv (sampleCLI ?opt) noOutput = (Inr (Some ?cur), ?p1)"
    by (simp add: prod_eq_iff)
  have one: "flagSpecs (Option (sampleCLI ?opt)) = [Patch]"
    by (simp add: flagSpecs_def sampleCLI_def noFlags_def)
  have nextv: "nextVersion sampleEnv (sampleCLI ?opt) (Some ?cur) ?p1 = (Inr (IncPatch ?cur), ?p1)"
    using nextVersion_resolved [OF resolveSpec_one_flag [OF one]] by simp
  have tag1: "publishedTag ?cur (IncPatch ?cur) = ''v1.1.2''"
    by code_simp
  have tag2: "publishedTag (release 0 1 0 ''0.1.0'') (IncMajor (release 0 1 0 ''0.1.0'')) = ''1.0.0''"
    by code_simp
  have pre1: "prefix ''v'' (Original ?cur)"
    by (simp add: Original_def release_def)
  have pre2: "\<not> prefix ''v'' (Original (release 0 1 0 ''0.1.0''))"
    by (simp add: Original_def release_def)
  have next1: "fst (nextVersion sampleEnv (sampleCLI ?opt) (Some ?cur) ?p1) = Inr (IncPatch ?cur)"
    by (simp only: nextv fst_conv)
  have "Run sampleEnv [] (newCLI ?opt) noOutput =
      PushTag sampleEnv (publishedTag ?cur (IncPatch ?cur)) (sampleCLI ?opt) ?p1"
    using Run_published_tag [OF opened c2 cur nextv] by blast
  with opened cur1 next1 tag1 tag2 pre1 pre2 show ?thesis by simp
qed

subsection \<open>Publishing\<close>

lemma PushTag_CreateTag_fails:
  assumes "Repo c = Some r" and "CreateTagError r = Some e"
  shows "\<exists>f. PushTag env tag c p = (Some f, c\<lparr>Repo := Some r\<rparr>, p)"
  using assms
  by (auto simp: PushTag_def Let_def CreateTag_def split: option.splits sum.splits prod.splits)

lemma PushTag_CreateTag_error:
  assumes "Repo c = Some r" and "Head r = Inr h" and "CommitObject r h = Inr commit"
    and "gitconfigUser env = Inr user" and "gitconfigEmail env = Inr email"
    and "CreateTagError r = Some e"
  shows "PushTag env tag c p = (Some (Error e), c\<lparr>Repo := Some r\<rparr>, p)"
  using assms by (simp add: PushTag_def Let_def CreateTag_def)

lemma PushTag_Push_fails:
  assumes "Repo c = Some r" and "Head r = Inr h" and "CommitObject r h = Inr commit"
    and "gitconfigUser env = Inr user" and "gitconfigEmail env = Inr email"
    and "CreateTagError r = None" and "PushError r = Some e"
    and "PushTag env tag c p = (res, c', p')"
  shows "res = Some (Error e) \<and>
         (\<exists>r'. Repo c' = Some r' \<and>
            references r' = references r @ [''refs/tags/'' @ tag] \<and>
            tagObjects r' = tagObjects r @
              [\<lparr>tagName = tag, tagTarget = h,
                tagOptions = \<lparr>Tagger = \<lparr>Name = user, Email = email, When = committerWhen commit\<rparr>,
                              Message = commitMessage commit\<rparr>\<rparr>] \<and>
            pushed r' = pushed r)"
  using assms by (auto simp: PushTag_def Let_def CreateTag_def Push_def)

text \<open>
  Claim C8: when \<^verbatim>\<open>CreateTag\<close> fails, \<^verbatim>\<open>PushTag\<close> returns an error and leaves
  the repository (its list of push requests included) and the output as they were: no
  push is requested. When the steps up to
  \<^verbatim>\<open>CreateTag\<close> succeed and \<^verbatim>\<open>Push\<close> fails, \<^verbatim>\<open>PushTag\<close> returns the error of
  the push, and the repository it leaves still holds the new tag object and its
  reference, with nothing recorded as pushed.
\<close>

theorem PushTag_short_circuit_and_no_rollback:
  assumes "Repo c = Some r" and "PushTag env tag c p = (res, c', p')"
  shows "(CreateTagError r \<noteq> None \<longrightarrow>
            res \<noteq> None \<and> Repo c' = Some r \<and> p' = p) \<and>
         (\<forall>h commit user email e.
            Head r = Inr h \<and> CommitObject r h = Inr commit \<and>
            gitconfigUser env = Inr user \<and> gitconfigEmail env = Inr email \<and>
            CreateTagError r = None \<and> PushError r = Some e \<longrightarrow>
            res = Some (Error e) \<and>
            (\<exists>r'. Repo c' = Some r' \<and>
               references r' = references r @ [''refs/tags/'' @ tag] \<and>
               tagObjects r' = tagObjects r @
                 [\<lparr>tagName = tag, tagTarget = h,
                   tagOptions = \<lparr>Tagger = \<lparr>Name = user, Email = email, When = committerWhen commit\<rparr>,
                                 Message = commitMessage commit\<rparr>\<rparr>] \<and>
               pushed r' = pushed r))"
proof -
  have fails: "res \<noteq> None \<and> Repo c' = Some r \<and> p' = p" if "CreateTagError r \<noteq> None"
  proof -
    from that obtain e where "CreateTagError r = Some e" by auto
    from PushTag_CreateTag_fails [OF assms(1) this, of env tag p] assms(2)
    show ?thesis by auto
  qed
  have rejected: "res = Some (Error e) \<and>
            (\<exists>r'. Repo c' = Some r' \<and>
               references r' = references r @ [''refs/tags/'' @ tag] \<and>
               tagObjects r' = tagObjects r @
                 [\<lparr>tagName = tag, tagTarget = h,
                   tagOptions = \<lparr>Tagger = \<lparr>Name = user, Email = email, When = committerWhen commit\<rparr>,
                                 Message = commitMessage commit\<rparr>\<rparr>] \<and>
               pushed r' = pushed r)"
    if "Head r = Inr h \<and> CommitObject r h = Inr commit \<and>
        gitconfigUser env = Inr user \<and> gitconfigEmail env = Inr email \<and>
        CreateTagError r = None \<and> PushError r = Some e"
    for h commit user email e
    using that PushTag_Push_fails [OF assms(1) _ _ _ _ _ _ assms(2), of h commit user email e]
    by blast
  from fails rejected show ?thesis by blast
qed

text \<open>
  C8 on the sample repository: a rejected push leaves the tag v1.1.2 in place, and a
  failing tag creation leaves the repository and the output untouched.
\<close>

theorem PushTag_short_circuit_and_no_rollback_sample:
  "Repo (sampleCLI noFlags\<lparr>Repo := Some rejectingRepository\<rparr>) = Some rejectingRepository \<and>
   CreateTagError rejectingRepository = None \<and>
   PushError rejectingRepository = Some ''authentication required'' \<and>
   fst (PushTag sampleEnv ''v1.1.2'' (sampleCLI noFlags\<lparr>Repo := Some rejectingRepository\<rparr>) noOutput) =
     Some (Error ''authentication required'') \<and>
   (\<exists>r'. Repo (fst (snd (PushTag sampleEnv ''v1.1.2''
                 (sampleCLI noFlags\<lparr>Repo := Some rejectingRepository\<rparr>) noOutput))) = Some r' \<and>
      references r' =
        [''refs/tags/v1.0.0'', ''refs/tags/v1.1.0'', ''refs/tags/v1.1.1'', ''refs/tags/v1.1.2''] \<and>
      map tagName (tagObjects r') = [''v1.1.2''] \<and>
      pushed r' = []) \<and>
   CreateTagError (sampleRepository\<lparr>CreateTagError := Some ''tag already exists''\<rparr>) \<noteq> None \<and>
   fst (PushTag sampleEnv ''v1.1.1''
     (sampleCLI noFlags\<lparr>Repo := Some (sampleRepository\<lparr>CreateTagError := Some ''tag already exists''\<rparr>)\<rparr>)
     noOutput) = Some (Error ''tag already exists'') \<and>
   Repo (fst (snd (PushTag sampleEnv ''v1.1.1''
     (sampleCLI noFlags\<lparr>Repo := Some (sampleRepository\<lparr>CreateTagError := Some ''tag already exists''\<rparr>)\<rparr>)
     noOutput))) = Some (sampleRepository\<lparr>CreateTagError := Some ''tag already exists''\<rparr>) \<and>
   snd (snd (PushTag sampleEnv ''v1.1.1''
     (sampleCLI noFlags\<lparr>Repo := Some (sampleRepository\<lparr>CreateTagError := Some ''tag already exists''\<rparr>)\<rparr>)
     noOutput)) = noOutput"
proof -
  let ?c = "sampleCLI noFlags\<lparr>Repo := Some rejectingRepository\<rparr>"
  let ?out = "PushTag sampleEnv ''v1.1.2'' ?c noOutput"
  let ?rt = "sampleRepository\<lparr>CreateTagError := Some ''tag already exists''\<rparr>"
  let ?ct = "sampleCLI noFlags\<lparr>Repo := Some ?rt\<rparr>"
  let ?outt = "PushTag sampleEnv ''v1.1.1'' ?ct noOutput"
  have repo: "Repo ?c = Some rejectingRepository" by simp
  have out: "?out = (fst ?out, fst (snd ?out), snd (snd ?out))" by simp
  have steps: "Head rejectingRepository = Inr ''4b825dc'' \<and>
      CommitObject rejectingRepository ''4b825dc'' =
        Inr \<lparr>commitMessage = ''Fix typo'', committerWhen = 1600000000\<rparr> \<and>
      gitconfigUser sampleEnv = Inr ''alice'' \<and>
      gitconfigEmail sampleEnv = Inr ''alice@example.com'' \<and>
      CreateTagError rejectingRepository = None \<and>
      PushError rejectingRepository = Some ''authentication required''"
    by (simp add: Head_def CommitObject_def rejectingRepository_def sampleRepository_def sampleEnv_def)
  have refs: "references rejectingRepository =
      [''refs/tags/v1.0.0'', ''refs/tags/v1.1.0'', ''refs/tags/v1.1.1'']"
    "tagObjects rejectingRepository = []" "pushed rejectingRepository = []"
    by (simp_all add: rejectingRepository_def sampleRepository_def)
  have rejected: "fst ?out = Some (Error ''authentication required'') \<and>
      (\<exists>r'. Repo (fst (snd ?out)) = Some r' \<and>
         references r' =
           [''refs/tags/v1.0.0'', ''refs/tags/v1.1.0'', ''refs/tags/v1.1.1'', ''refs/tags/v1.1.2''] \<and>
         map tagName (tagObjects r') = [''v1.1.2''] \<and> pushed r' = [])"
    using PushTag_short_circuit_and_no_rollback [OF repo out] steps refs by fastforce
  have repot: "Repo ?ct = Some ?rt" by simp
  have outt: "?outt = (fst ?outt, fst (snd ?outt), snd (snd ?outt))" by simp
  have failing: "CreateTagError ?rt \<noteq> None" by simp
  have collided: "Repo (fst (snd ?outt)) = Some ?rt \<and> snd (snd ?outt) = noOutput"
    using PushTag_short_circuit_and_no_rollback [OF repot outt] failing by blast
  have errt: "fst ?outt = Some (Error ''tag already exists'')"
    by code_simp
  from repo steps rejected failing errt collided show ?thesis by blast
qed

lemma PushTag_pushed_line:
  assumes "Repo c = Some r" and "Head r = Inr h" and "CommitObject r h = Inr commit"
    and "gitconfigUser env = Inr user" and "gitconfigEmail env = Inr email"
    and "CreateTagError r = None" and "Stdout c = os_Stdout"
  shows "fst (PushTag env tag c p) = map_option Error (PushError r) \<and>
         last (stdout (snd (snd (PushTag env tag c p)))) = ''Pushed to origin.\<newline>''"
  using assms
  by (auto simp: PushTag_def Let_def CreateTag_def Push_def split: option.splits)

text \<open>
  Claim C3 says that the line \<open>Pushed to origin.\<close> is written only when the push
  succeeds. \<^verbatim>\<open>PushTag\<close> defers the write before it calls \<^verbatim>\<open>Push\<close> (line 164), so
  the line is written whenever the tag has been created. In the sample run with
  \<^verbatim>\<open>--patch\<close> against a remote that rejects the push, the output ends with the tag
  line and the pushed line, while the error goes to standard error and the exit code
  is 1. (\<open>PushTag_pushed_line\<close> above says the same of every run in which the tag
  is created: the last write is the pushed line, whatever \<^verbatim>\<open>Push\<close> returns.)
\<close>

theorem run_push_rejected_prints_pushed:
  "run rejectingEnv [''--patch''] noOutput =
     (Inr 1,
      \<lparr>stdout =
         [''Tags:\<newline>'', ''- v1.0.0\<newline>'', ''- v1.1.0\<newline>'',
          ''- v1.1.1 (current version)\<newline>'', ''\<newline>'',
          ''Bump version to '' @ quote ''v1.1.2'' @ ''.\<newline>'',
          ''Pushed to origin.\<newline>''],
       stderr = [''[ERROR] authentication required\<newline>''],
       prompts = []\<rparr>)"
  by code_simp

subsection \<open>Error reporting and quiet mode\<close>

lemma Fprint_stderr: "w \<noteq> os_Stderr \<Longrightarrow> stderr (Fprint w s p) = stderr p"
  by (cases w) simp_all

lemma Fprint_Discard_stdout: "stdout (Fprint ioutil_Discard s p) = stdout p"
  by simp

lemma printTags_stderr: "w \<noteq> os_Stderr \<Longrightarrow> stderr (snd (printTags w vs p)) = stderr p"
  by (induction w vs p rule: printTags.induct) (simp_all add: Fprint_stderr)

lemma currentOf_stderr:
  assumes "w \<noteq> os_Stderr"
  shows "stderr (snd (currentOf env w tags p)) = stderr p"
proof -
  have "stderr (snd (printTags w vs (Fprint w ''Tags:\<newline>'' p))) = stderr p" for vs
    using assms by (simp add: printTags_stderr Fprint_stderr)
  then show ?thesis
    using assms
    by (auto simp: currentOf_def Let_def Fprint_stderr split: sum.splits prod.splits option.splits)
      (metis snd_conv)+
qed

lemma currentVersion_stderr:
  "Stdout c \<noteq> os_Stderr \<Longrightarrow> stderr (snd (currentVersion env c p)) = stderr p"
  by (auto simp: currentVersion_def currentOf_stderr split: option.splits sum.splits)

lemma prompt_stderr: "stderr (snd (prompt env label items p)) = stderr p"
  by (simp add: prompt_def Let_def split: prod.splits)

lemma promptSpec_stderr: "stderr (snd (promptSpec env label items p)) = stderr p"
  using prompt_stderr [of env label items p]
  by (auto simp: promptSpec_def split: prod.splits sum.splits option.splits)

lemma resolveSpec_stderr: "stderr (snd (resolveSpec env c cur p)) = stderr p"
  by (simp add: resolveSpec_def Let_def promptSpec_stderr split: list.splits)

lemma nextVersion_stderr: "stderr (snd (nextVersion env c current p)) = stderr p"
proof (cases current)
  case None
  then show ?thesis by (simp add: nextVersion_def)
next
  case (Some cur)
  then show ?thesis by (simp add: nextVersion_process resolveSpec_stderr)
qed

lemma progress_stderr:
  "w \<noteq> os_Stderr \<Longrightarrow> stderr (foldl (\<lambda>q s. Fprint w s q) p lines) = stderr p"
  by (induction lines arbitrary: p) (simp_all add: Fprint_stderr)

lemma Push_stderr:
  "Progress opts \<noteq> os_Stderr \<Longrightarrow> stderr (snd (snd (Push opts r p))) = stderr p"
  by (simp add: Push_def Let_def progress_stderr split: option.splits)

lemma PushTag_stderr:
  assumes "Stdout c \<noteq> os_Stderr"
  shows "stderr (snd (snd (PushTag env tag c p))) = stderr p"
  using assms
  by (auto simp: PushTag_def Let_def Push_def progress_stderr Fprint_stderr
      split: option.splits sum.splits prod.splits)

lemma Run_stderr:
  assumes "Stdout c \<noteq> os_Stderr"
  shows "stderr (snd (snd (Run env args c p))) = stderr p"
proof -
  define c1 where "c1 = (if optQuiet (Option c)
      then c\<lparr>Stdout := ioutil_Discard, Stderr := ioutil_Discard\<rparr> else c)"
  have w: "Stdout (c1\<lparr>Repo := Some r\<rparr>) \<noteq> os_Stderr" for r
    using assms by (simp add: c1_def)
  show ?thesis
  proof (cases "PlainOpen env (case args of [] \<Rightarrow> ''.'' | a # _ \<Rightarrow> a)")
    case (Inl e)
    then show ?thesis by (simp add: Run_def Let_def)
  next
    case (Inr r)
    let ?c2 = "c1\<lparr>Repo := Some r\<rparr>"
    obtain res1 p1 where cv: "currentVersion env ?c2 p = (res1, p1)"
      by (cases "currentVersion env ?c2 p")
    have e1: "stderr p1 = stderr p"
      using currentVersion_stderr [OF w, of env r p] cv by simp
    show ?thesis
    proof (cases res1)
      case (Inl f)
      with Inr cv e1 show ?thesis by (simp add: Run_def Let_def c1_def)
    next
      case current: (Inr current)
      obtain res2 p2 where nv: "nextVersion env ?c2 current p1 = (res2, p2)"
        by (cases "nextVersion env ?c2 current p1")
      have e2: "stderr p2 = stderr p"
        using nextVersion_stderr [of env ?c2 current p1] nv e1 by simp
      show ?thesis
      proof (cases res2)
        case (Inl f)
        with Inr cv current nv e2 show ?thesis by (simp add: Run_def Let_def c1_def)
      next
        case nextv: (Inr nextv)
        show ?thesis
        proof (cases current)
          case None
          with Inr cv current nv nextv e2 show ?thesis by (simp add: Run_def Let_def c1_def)
        next
          case (Some cur)
          have "stderr (snd (snd (PushTag env (publishedTag cur nextv) ?c2 p2))) = stderr p2"
            using w by (rule PushTag_stderr)
          with Some Inr cv current nv nextv e2 show ?thesis
            by (simp add: Run_def Let_def c1_def)
        qed
      qed
    qed
  qed
qed

lemma printTags_Discard: "printTags ioutil_Discard vs p = (fst (printTags ioutil_Discard vs p), p)"
  by (induction "ioutil_Discard" vs p rule: printTags.induct) simp_all

lemma currentOf_Discard: "snd (currentOf env ioutil_Discard tags p) = p"
proof -
  have "snd (printTags ioutil_Discard vs p) = p" for vs
    using printTags_Discard [of vs p] by (metis snd_conv)
  then show ?thesis
    by (auto simp: currentOf_def Let_def split: sum.splits prod.splits option.splits)
      (metis snd_conv)+
qed

lemma currentVersion_Discard:
  "Stdout c = ioutil_Discard \<Longrightarrow> snd (currentVersion env c p) = p"
  by (auto simp: currentVersion_def currentOf_Discard split: option.splits sum.splits)

lemma prompt_stdout: "stdout (snd (prompt env label items p)) = stdout p"
  by (simp add: prompt_def Let_def split: prod.splits)

lemma promptSpec_stdout: "stdout (snd (promptSpec env label items p)) = stdout p"
  using prompt_stdout [of env label items p]
  by (auto simp: promptSpec_def split: prod.splits sum.splits option.splits)

lemma resolveSpec_stdout: "stdout (snd (resolveSpec env c cur p)) = stdout p"
  by (simp add: resolveSpec_def Let_def promptSpec_stdout split: list.splits)

lemma nextVersion_stdout: "stdout (snd (nextVersion env c current p)) = stdout p"
proof (cases current)
  case None
  then show ?thesis by (simp add: nextVersion_def)
next
  case (Some cur)
  then show ?thesis by (simp add: nextVersion_process resolveSpec_stdout)
qed

lemma progress_Discard: "foldl (\<lambda>q s. q) p lines = p"
  by (induction lines arbitrary: p) simp_all

lemma PushTag_Discard:
  assumes "Stdout c = ioutil_Discard"
  shows "snd (snd (PushTag env tag c p)) = p"
  using assms
  by (auto simp: PushTag_def Let_def Push_def progress_Discard
      split: option.splits sum.splits prod.splits)

lemma Run_quiet_stdout:
  assumes "optQuiet (Option c)"
  shows "stdout (snd (snd (Run env args c p))) = stdout p"
proof -
  define c1 where "c1 = c\<lparr>Stdout := ioutil_Discard, Stderr := ioutil_Discard\<rparr>"
  have w: "Stdout (c1\<lparr>Repo := Some r\<rparr>) = ioutil_Discard" for r
    by (simp add: c1_def)
  show ?thesis
  proof (cases "PlainOpen env (case args of [] \<Rightarrow> ''.'' | a # _ \<Rightarrow> a)")
    case (Inl e)
    then show ?thesis by (simp add: Run_def Let_def)
  next
    case (Inr r)
    let ?c2 = "c1\<lparr>Repo := Some r\<rparr>"
    obtain res1 p1 where cv: "currentVersion env ?c2 p = (res1, p1)"
      by (cases "currentVersion env ?c2 p")
    have e1: "p1 = p"
      using currentVersion_Discard [OF w, of env r p] cv by simp
    show ?thesis
    proof (cases res1)
      case (Inl f)
      with Inr cv e1 assms show ?thesis by (simp add: Run_def Let_def c1_def)
    next
      case current: (Inr current)
      obtain res2 p2 where nv: "nextVersion env ?c2 current p1 = (res2, p2)"
        by (cases "nextVersion env ?c2 current p1")
      have e2: "stdout p2 = stdout p"
        using nextVersion_stdout [of env ?c2 current p1] nv e1 by simp
      show ?thesis
      proof (cases res2)
        case (Inl f)
        with Inr cv current nv e2 assms show ?thesis by (simp add: Run_def Let_def c1_def)
      next
        case nextv: (Inr nextv)
        show ?thesis
        proof (cases current)
          case None
          with Inr cv current nv nextv e2 assms show ?thesis
            by (simp add: Run_def Let_def c1_def)
        next
          case (Some cur)
          have "snd (snd (PushTag env (publishedTag cur nextv) ?c2 p2)) = p2"
            using w by (rule PushTag_Discard)
          with Some Inr cv current nv nextv e2 assms show ?thesis
            by (simp add: Run_def Let_def c1_def)
        qed
      qed
    qed
  qed
qed

text \<open>
  Claim C10: when the arguments parse and \<^verbatim>\<open>CLI.Run\<close> returns an error, \<^verbatim>\<open>run\<close>
  exits with 1 and the process's standard error receives exactly one more write, the
  message behind \<open>[ERROR] \<close>, whether or not the quiet flag is set; with the quiet flag
  the standard output receives nothing. (\<^verbatim>\<open>CLI.Run\<close> never writes to standard error
  itself, and quiet mode only replaces the two writers of the \<^verbatim>\<open>CLI\<close>.)
\<close>

theorem run_error_on_stderr:
  assumes "ParseArgs env args = Inr (opt, rest)"
    and "Run env rest (newCLI opt) p = (Some (Error msg), c', p')"
  shows "run env args p =
           (Inr 1, p'\<lparr>stderr := stderr p @ [''[ERROR] '' @ msg @ ''\<newline>'']\<rparr>) \<and>
         (optQuiet opt \<longrightarrow> stdout p' = stdout p)"
proof -
  have "Stdout (newCLI opt) \<noteq> os_Stderr" by (simp add: newCLI_def)
  from Run_stderr [OF this, of env rest p] assms(2) have err: "stderr p' = stderr p"
    by simp
  have quiet: "stdout p' = stdout p" if "optQuiet opt"
  proof -
    from that have "optQuiet (Option (newCLI opt))" by (simp add: newCLI_def)
    from Run_quiet_stdout [OF this, of env rest p] assms(2) show ?thesis by simp
  qed
  from assms err have "run env args p =
      (Inr 1, p'\<lparr>stderr := stderr p @ [''[ERROR] '' @ msg @ ''\<newline>'']\<rparr>)"
    by (simp add: run_def)
  with quiet show ?thesis by simp
qed

text \<open>
  C10 on the sample run with \<^verbatim>\<open>-q --patch\<close> against a remote that rejects the push:
  nothing on standard output, the error on standard error.
\<close>

theorem run_error_on_stderr_sample:
  "ParseArgs rejectingEnv [''-q'', ''--patch''] =
     Inr (noFlags\<lparr>optPatch := True, optQuiet := True\<rparr>, []) \<and>
   optQuiet (noFlags\<lparr>optPatch := True, optQuiet := True\<rparr>) \<and>
   fst (Run rejectingEnv [] (newCLI (noFlags\<lparr>optPatch := True, optQuiet := True\<rparr>)) noOutput) =
     Some (Error ''authentication required'') \<and>
   run rejectingEnv [''-q'', ''--patch''] noOutput =
     (Inr 1,
      \<lparr>stdout = [], stderr = [''[ERROR] authentication required\<newline>''], prompts = []\<rparr>)"
proof -
  let ?opt = "noFlags\<lparr>optPatch := True, optQuiet := True\<rparr>"
  let ?out = "Run rejectingEnv [] (newCLI ?opt) noOutput"
  have args: "ParseArgs rejectingEnv [''-q'', ''--patch''] = Inr (?opt, [])"
    by (simp add: rejectingEnv_def sampleEnv_def noFlags_def)
  have failed: "fst ?out = Some (Error ''authentication required'')"
    by code_simp
  then have out: "?out = (Some (Error ''authentication required''), fst (snd ?out), snd (snd ?out))"
    by (simp add: prod_eq_iff)
  have quiet: "optQuiet ?opt" by simp
  have prompts: "prompts (snd (snd ?out)) = []"
    by code_simp
  from run_error_on_stderr [OF args out] args quiet failed prompts
  show ?thesis
    by (simp add: noOutput_def)
qed

end
